theory Spec2Isabelle
  imports Main "HOL-Library.Sublist" "HOL-Library.Monad_Syntax"
begin

section \<open>The macOS bundle launcher (packaging/macos/launcher.c)\<close>

text \<open>
  The launcher is a single C function, \<^verbatim>\<open>main\<close>. It asks the operating system for
  the canonical path of its own executable, cuts that path at the first
  \<^verbatim>\<open>/Contents/\<close>, formats two derived paths into fixed 1024-byte stack buffers, checks
  with \<^verbatim>\<open>stat\<close> that the launch script exists, changes directory and calls
  \<^verbatim>\<open>execl\<close>.

  The embedding keeps the three layers of the source apart:
  \<^item> bytes and buffers: a buffer is a list of bytes of fixed length, a C string is the
    bytes of a buffer before its first NUL, and every store is bounds-checked, so that a
    store outside a buffer is a value (\<open>None\<close>) of the model;
  \<^item> the C library calls the source makes (\<^verbatim>\<open>snprintf\<close>, \<^verbatim>\<open>strstr\<close>), written after
    their ISO C contracts;
  \<^item> the process: working directory, environment, error stream, heap and a trace of the
    system calls made, passed explicitly; the file system is a parameter.
\<close>

subsection \<open>Bytes, buffers and C strings\<close>

type_synonym buffer = "char list"

definition NUL :: char where
  "NUL = CHR 0x00"

definition LF :: char where
  "LF = CHR 0x0A"

text \<open>
  \<^verbatim>\<open>char buf[n];\<close> without initialiser: \<open>n\<close> bytes whose contents are whatever the stack
  held, given by the function \<open>junk\<close>.
\<close>

definition uninitialised :: "(nat \<Rightarrow> char) \<Rightarrow> nat \<Rightarrow> buffer" where
  "uninitialised junk n = map junk [0..<n]"

text \<open>
  Reading a buffer as a C string (what \<^verbatim>\<open>%s\<close>, \<^verbatim>\<open>strstr\<close>, \<^verbatim>\<open>stat\<close>, \<^verbatim>\<open>chdir\<close> and
  \<^verbatim>\<open>execl\<close> do with a \<^verbatim>\<open>char *\<close>): the bytes before the first NUL. A buffer without a
  NUL would be read past its end: \<open>None\<close>.
\<close>

definition c_str :: "buffer \<Rightarrow> string option" where
  "c_str buf = (if NUL \<in> set buf then Some (takeWhile (\<lambda>c. c \<noteq> NUL) buf) else None)"

text \<open>\<^verbatim>\<open>buf[i] = c\<close>, bounds-checked.\<close>

definition poke :: "buffer \<Rightarrow> nat \<Rightarrow> char \<Rightarrow> buffer option" where
  "poke buf i c = (if i < length buf then Some (buf[i := c]) else None)"

text \<open>Storing the bytes \<open>cs\<close> one after the other from index \<open>i\<close> on.\<close>

fun store_bytes :: "buffer \<Rightarrow> nat \<Rightarrow> char list \<Rightarrow> buffer option" where
  "store_bytes buf i [] = Some buf"
| "store_bytes buf i (c # cs) =
     (case poke buf i c of None \<Rightarrow> None | Some buf' \<Rightarrow> store_bytes buf' (Suc i) cs)"

subsection \<open>The C library functions used\<close>

text \<open>
  \<^verbatim>\<open>snprintf(buf, n, fmt, ...)\<close> (ISO C 7.21.6.5): of the formatted output \<open>out\<close>, at
  most \<open>n - 1\<close> bytes are stored, followed by a NUL; nothing is stored when \<open>n\<close> is
  zero. The source ignores the return value. The argument \<open>out\<close> is the expansion of the
  format, built at each call site.
\<close>

definition snprintf :: "buffer \<Rightarrow> nat \<Rightarrow> string \<Rightarrow> buffer option" where
  "snprintf buf n out =
     (if n = 0 then Some buf else store_bytes buf 0 (take (n - 1) out @ [NUL]))"

text \<open>
  \<^verbatim>\<open>strstr(haystack, needle)\<close> (ISO C 7.24.5.7): the first occurrence of \<open>needle\<close> in
  \<open>haystack\<close>, as an offset into \<open>haystack\<close>, or \<open>None\<close> for the null pointer.
\<close>

fun strstr :: "string \<Rightarrow> string \<Rightarrow> nat option" where
  "strstr [] needle = (if needle = [] then Some 0 else None)"
| "strstr (c # cs) needle =
     (if prefix needle (c # cs) then Some 0 else map_option Suc (strstr cs needle))"

subsection \<open>Path derivation (lines 8--10 and 21--28 of \<^verbatim>\<open>main\<close>)\<close>

text \<open>The initial contents of the three stack buffers.\<close>

record frame =
  app_junk :: "nat \<Rightarrow> char"
  resources_junk :: "nat \<Rightarrow> char"
  script_junk :: "nat \<Rightarrow> char"

text \<open>
  \<open>executable_path\<close> is the block \<^verbatim>\<open>realpath\<close> returned. The result holds the three
  buffers as they are after line 28; \<open>None\<close> is a store outside a buffer or a read of an
  unterminated one.
\<close>

definition derive_paths :: "frame \<Rightarrow> buffer \<Rightarrow> (buffer \<times> buffer \<times> buffer) option" where
  "derive_paths fr executable_path =
     do {
       let app_path = uninitialised (app_junk fr) 1024;
       let resources_path = uninitialised (resources_junk fr) 1024;
       let script_path = uninitialised (script_junk fr) 1024;
       exe \<leftarrow> c_str executable_path;
       app_path \<leftarrow> snprintf app_path 1024 exe;
       app \<leftarrow> c_str app_path;
       app_path \<leftarrow> (case strstr app ''/Contents/'' of
                      None \<Rightarrow> Some app_path
                    | Some contents_pos \<Rightarrow> poke app_path contents_pos NUL);
       app \<leftarrow> c_str app_path;
       resources_path \<leftarrow> snprintf resources_path 1024 (app @ ''/Contents/Resources'');
       script_path \<leftarrow> snprintf script_path 1024 (app @ ''/Contents/Resources/launcher.sh'');
       Some (app_path, resources_path, script_path)
     }"

subsection \<open>The process and the operating system\<close>

type_synonym addr = nat

text \<open>
  The file system and the kernel, as \<^verbatim>\<open>main\<close> sees them: \<^verbatim>\<open>realpath(path, NULL)\<close> fails
  or returns a fresh heap block holding the canonical path; \<^verbatim>\<open>stat\<close> and \<^verbatim>\<open>chdir\<close>
  return 0 or not; \<^verbatim>\<open>execl\<close> replaces the image or returns.
\<close>

record os =
  os_realpath :: "string \<Rightarrow> (addr \<times> string) option"
  os_stat :: "string \<Rightarrow> bool"
  os_chdir :: "string \<Rightarrow> bool"
  os_execl :: "string \<Rightarrow> string list \<Rightarrow> bool"

datatype event =
    EvRealpath "string option"
  | EvStat string
  | EvChdir string
  | EvExecl string "string list"
  | EvFree addr

record proc =
  cwd :: string
  environ :: "string list"
  stderr :: string
  heap :: "addr \<Rightarrow> buffer option"
  trace :: "event list"

text \<open>What a new process image starts from.\<close>

record image =
  img_path :: string
  img_argv :: "string list"
  img_environ :: "string list"
  img_cwd :: string

datatype outcome =
    Exit int
  | Replaced image
  | Fault

definition log_event :: "event \<Rightarrow> proc \<Rightarrow> proc" where
  "log_event e s = s\<lparr>trace := trace s @ [e]\<rparr>"

definition fprintf_stderr :: "string \<Rightarrow> proc \<Rightarrow> proc" where
  "fprintf_stderr out s = s\<lparr>stderr := stderr s @ out\<rparr>"

definition free :: "addr \<Rightarrow> proc \<Rightarrow> proc" where
  "free p s = log_event (EvFree p) (s\<lparr>heap := (heap s)(p := None)\<rparr>)"

text \<open>\<^verbatim>\<open>argv[0]\<close>: the null pointer when the argument vector is empty.\<close>

definition argv0 :: "string list \<Rightarrow> string option" where
  "argv0 argv = (case argv of [] \<Rightarrow> None | a # _ \<Rightarrow> Some a)"

text \<open>
  \<^verbatim>\<open>realpath(file_name, NULL)\<close>: fails on the null pointer (EINVAL); on success the
  block holds the path and its terminating NUL.
\<close>

definition realpath :: "os \<Rightarrow> string option \<Rightarrow> proc \<Rightarrow> (addr \<times> buffer) option \<times> proc" where
  "realpath sys file_name s =
     (let s' = log_event (EvRealpath file_name) s in
      case file_name of
        None \<Rightarrow> (None, s')
      | Some f \<Rightarrow>
          (case os_realpath sys f of
             None \<Rightarrow> (None, s')
           | Some (p, path) \<Rightarrow>
               (Some (p, path @ [NUL]), s'\<lparr>heap := (heap s')(p \<mapsto> path @ [NUL])\<rparr>)))"

definition stat :: "os \<Rightarrow> string \<Rightarrow> proc \<Rightarrow> bool \<times> proc" where
  "stat sys path s = (os_stat sys path, log_event (EvStat path) s)"

definition chdir :: "os \<Rightarrow> string \<Rightarrow> proc \<Rightarrow> bool \<times> proc" where
  "chdir sys path s =
     (let s' = log_event (EvChdir path) s in
      if os_chdir sys path then (True, s'\<lparr>cwd := path\<rparr>) else (False, s'))"

text \<open>
  \<^verbatim>\<open>execl(path, arg0, NULL)\<close>: on success the result is the image that replaces the
  process, started in the current directory with the current environment; otherwise the
  call returns.
\<close>

definition execl :: "os \<Rightarrow> string \<Rightarrow> string list \<Rightarrow> proc \<Rightarrow> image option \<times> proc" where
  "execl sys path args s =
     (let s' = log_event (EvExecl path args) s in
      if os_execl sys path args
      then (Some \<lparr>img_path = path, img_argv = args, img_environ = environ s', img_cwd = cwd s'\<rparr>, s')
      else (None, s'))"

subsection \<open>The diagnostics\<close>

definition msg_resolve :: string where
  "msg_resolve = ''Error: Could not resolve executable path'' @ [LF]"

definition msg_not_found :: "string \<Rightarrow> string" where
  "msg_not_found script = ''Error: Launcher script not found at '' @ script @ [LF]"

definition msg_chdir :: string where
  "msg_chdir = ''Error: Could not change to resources directory'' @ [LF]"

definition msg_exec :: string where
  "msg_exec = ''Error: Failed to execute launcher script'' @ [LF]"

subsection \<open>\<^verbatim>\<open>main\<close>\<close>

text \<open>
  The function follows the source branch by branch: each \<^verbatim>\<open>return 1\<close> is an \<open>Exit 1\<close>
  after the \<^verbatim>\<open>fprintf\<close> and the \<^verbatim>\<open>free\<close> of that branch, in that order. \<open>Fault\<close> stands for
  undefined behaviour on the buffers (a store outside one, or a read of one that holds no
  NUL); the strings that \<^verbatim>\<open>stat\<close>, \<^verbatim>\<open>chdir\<close>, \<^verbatim>\<open>execl\<close> and the \<^verbatim>\<open>%s\<close> of line 33 receive
  are read from the buffers once, since nothing stores to them after line 28.
\<close>

definition main :: "os \<Rightarrow> frame \<Rightarrow> string list \<Rightarrow> proc \<Rightarrow> outcome \<times> proc" where
  "main sys fr argv s0 =
     (case realpath sys (argv0 argv) s0 of
        (None, s1) \<Rightarrow> (Exit 1, fprintf_stderr msg_resolve s1)
      | (Some (executable_path, block), s1) \<Rightarrow>
          (case derive_paths fr block of
             None \<Rightarrow> (Fault, s1)
           | Some (app_path, resources_path, script_path) \<Rightarrow>
               (case (c_str script_path, c_str resources_path) of
                  (Some script, Some resources) \<Rightarrow>
                    (case stat sys script s1 of
                       (False, s2) \<Rightarrow>
                         (Exit 1, free executable_path (fprintf_stderr (msg_not_found script) s2))
                     | (True, s2) \<Rightarrow>
                         (case chdir sys resources s2 of
                            (False, s3) \<Rightarrow>
                              (Exit 1, free executable_path (fprintf_stderr msg_chdir s3))
                          | (True, s3) \<Rightarrow>
                              (case execl sys script [script] s3 of
                                 (Some img, s4) \<Rightarrow> (Replaced img, s4)
                               | (None, s4) \<Rightarrow>
                                   (Exit 1, free executable_path (fprintf_stderr msg_exec s4)))))
                | _ \<Rightarrow> (Fault, s1))))"

subsection \<open>What the run can be observed to do\<close>

text \<open>
  The three derived paths as the later calls read them: the C strings held by the buffers
  after line 28, for the canonical path \<open>path\<close> returned by \<^verbatim>\<open>realpath\<close>.
\<close>

definition app_root :: "frame \<Rightarrow> string \<Rightarrow> string option" where
  "app_root fr path =
     do { (app_path, resources_path, script_path) \<leftarrow> derive_paths fr (path @ [NUL]);
          c_str app_path }"

definition resources_path :: "frame \<Rightarrow> string \<Rightarrow> string option" where
  "resources_path fr path =
     do { (app_path, resources_path, script_path) \<leftarrow> derive_paths fr (path @ [NUL]);
          c_str resources_path }"

definition script_path :: "frame \<Rightarrow> string \<Rightarrow> string option" where
  "script_path fr path =
     do { (app_path, resources_path, script_path) \<leftarrow> derive_paths fr (path @ [NUL]);
          c_str script_path }"

text \<open>Lines 22--25 on the C string held by \<open>app_path\<close>.\<close>

definition cut_at_contents :: "string \<Rightarrow> string" where
  "cut_at_contents app =
     (case strstr app ''/Contents/'' of
        None \<Rightarrow> app
      | Some contents_pos \<Rightarrow> take contents_pos app)"

text \<open>The events a run added to the trace, the system calls among them, and the blocks freed.\<close>

definition new_events :: "proc \<Rightarrow> proc \<Rightarrow> event list" where
  "new_events s s' = drop (length (trace s)) (trace s')"

text \<open>What a run wrote to the error stream.\<close>

definition new_output :: "proc \<Rightarrow> proc \<Rightarrow> string" where
  "new_output s s' = drop (length (stderr s)) (stderr s')"

fun is_free :: "event \<Rightarrow> bool" where
  "is_free (EvFree p) = True"
| "is_free e = False"

definition syscalls :: "event list \<Rightarrow> event list" where
  "syscalls es = filter (\<lambda>e. \<not> is_free e) es"

definition frees :: "event list \<Rightarrow> event list" where
  "frees es = filter is_free es"

subsection \<open>Test vectors\<close>

definition fresh_proc :: proc where
  "fresh_proc = \<lparr>cwd = ''/'', environ = [''HOME=/Users/me''], stderr = [], heap = (\<lambda>_. None), trace = []\<rparr>"

definition stack_junk :: frame where
  "stack_junk = \<lparr>app_junk = (\<lambda>_. CHR ''x''), resources_junk = (\<lambda>_. CHR ''y''), script_junk = (\<lambda>_. CHR ''z'')\<rparr>"

text \<open>
  A system where \<^verbatim>\<open>realpath\<close> answers \<open>path\<close> in a block at address 64, and \<^verbatim>\<open>stat\<close>,
  \<^verbatim>\<open>chdir\<close> and \<^verbatim>\<open>execl\<close> succeed as the three flags say; and one where nothing resolves.
\<close>

definition test_os :: "string \<Rightarrow> bool \<Rightarrow> bool \<Rightarrow> bool \<Rightarrow> os" where
  "test_os path st ch ex =
     \<lparr>os_realpath = (\<lambda>_. Some (64, path)), os_stat = (\<lambda>_. st), os_chdir = (\<lambda>_. ch),
      os_execl = (\<lambda>_ _. ex)\<rparr>"

definition no_os :: os where
  "no_os = \<lparr>os_realpath = (\<lambda>_. None), os_stat = (\<lambda>_. False), os_chdir = (\<lambda>_. False),
            os_execl = (\<lambda>_ _. False)\<rparr>"

definition bundle_exe :: string where
  "bundle_exe = ''/Applications/SSHPilot.app/Contents/MacOS/sshpilot''"

definition plain_exe :: string where
  "plain_exe = ''/usr/local/bin/sshpilot''"

definition nested_exe :: string where
  "nested_exe = ''/Volumes/Contents/SSHPilot.app/Contents/MacOS/sshpilot''"

text \<open>A directory name of 248 bytes, and a directory four such levels deep: 996 bytes.\<close>

definition long_dir :: string where
  "long_dir = CHR ''/'' # replicate 248 (CHR ''a'')"

definition long_root :: string where
  "long_root = long_dir @ long_dir @ long_dir @ long_dir"

definition long_bundle_exe :: string where
  "long_bundle_exe = long_root @ ''/Contents/'' @ ''MacOS/sshpilot''"

definition long_plain_exe :: string where
  "long_plain_exe = long_root @ ''/sshpilot''"

definition overlong_exe :: string where
  "overlong_exe =
     (long_root @ CHR ''/'' # replicate 20 (CHR ''b'')) @ ''/Contents/'' @ ''Foo.app/Contents/MacOS/sshpilot''"

section \<open>Properties\<close>

subsection \<open>Buffers and C strings\<close>

lemma length_uninitialised: "length (uninitialised junk n) = n"
  by (simp add: uninitialised_def)

lemma store_bytes_eq:
  "i + length cs \<le> length buf \<Longrightarrow>
   store_bytes buf i cs = Some (take i buf @ cs @ drop (i + length cs) buf)"
proof (induction cs arbitrary: buf i)
  case Nil
  then show ?case by simp
next
  case (Cons c cs)
  then have i: "i < length buf" by simp
  have "store_bytes (buf[i := c]) (Suc i) cs =
        Some (take (Suc i) (buf[i := c]) @ cs @ drop (Suc i + length cs) (buf[i := c]))"
    using Cons.prems by (intro Cons.IH) simp
  moreover have "take (Suc i) (buf[i := c]) = take i buf @ [c]"
    using i by (simp add: take_Suc_conv_app_nth)
  ultimately show ?case using i by (simp add: poke_def)
qed

lemma snprintf_eq:
  assumes "0 < n" "n \<le> length buf"
  shows "snprintf buf n out =
         Some (take (n - 1) out @ NUL # drop (Suc (length (take (n - 1) out))) buf)"
  using assms by (simp add: snprintf_def store_bytes_eq)

lemma c_str_terminated:
  "NUL \<notin> set xs \<Longrightarrow> c_str (xs @ NUL # ys) = Some xs"
  by (induction xs) (auto simp: c_str_def)

lemma c_str_no_NUL: "c_str buf = Some s \<Longrightarrow> NUL \<notin> set s"
  by (auto simp: c_str_def split: if_splits dest: set_takeWhileD)

lemma c_str_split: "c_str buf = Some s \<Longrightarrow> \<exists>rest. buf = s @ NUL # rest"
  apply (auto simp: c_str_def split: if_splits)
  by (metis (mono_tags, lifting) list.collapse takeWhile_dropWhile_id dropWhile_eq_Nil_conv hd_dropWhile)

lemma c_str_block: "c_str (path @ [NUL]) = Some (takeWhile (\<lambda>c. c \<noteq> NUL) path)"
  by (induction path) (auto simp: c_str_def)

lemma snprintf_c_str:
  assumes "0 < n" "n \<le> length buf" "NUL \<notin> set out"
  shows "\<exists>b. snprintf buf n out = Some b \<and> length b = length buf \<and> c_str b = Some (take (n - 1) out)"
proof -
  let ?t = "take (n - 1) out"
  let ?b = "?t @ NUL # drop (Suc (length ?t)) buf"
  have "snprintf buf n out = Some ?b" using assms by (simp add: snprintf_eq)
  moreover have "length ?b = length buf" using assms by simp
  moreover have "NUL \<notin> set ?t" using assms(3) by (auto dest: in_set_takeD)
  then have "c_str ?b = Some ?t" by (rule c_str_terminated)
  ultimately show ?thesis by blast
qed

lemma poke_c_str:
  assumes "c_str buf = Some s" "i \<le> length s"
  shows "\<exists>b. poke buf i NUL = Some b \<and> length b = length buf \<and> c_str b = Some (take i s)"
proof -
  from c_str_split[OF assms(1)] obtain rest where buf: "buf = s @ NUL # rest" by blast
  have nn: "NUL \<notin> set s" using assms(1) by (rule c_str_no_NUL)
  have i: "i < length buf" using assms(2) buf by simp
  have "\<exists>rest'. buf[i := NUL] = take i s @ NUL # rest'"
  proof (cases "i = length s")
    case True then show ?thesis using buf by simp
  next
    case False
    then have "i < length s" using assms(2) by simp
    then show ?thesis using buf by (simp add: list_update_append upd_conv_take_nth_drop)
  qed
  moreover have "NUL \<notin> set (take i s)" using nn by (auto dest: in_set_takeD)
  ultimately have "c_str (buf[i := NUL]) = Some (take i s)" by (auto simp: c_str_terminated)
  then show ?thesis using i by (simp add: poke_def)
qed

subsection \<open>\<open>strstr\<close> finds the first occurrence\<close>

lemma strstr_Some_prefix:
  "strstr s n = Some i \<Longrightarrow> prefix n (drop i s)"
  by (induction s arbitrary: i) (auto split: if_splits)

lemma strstr_Some_le:
  "strstr s n = Some i \<Longrightarrow> i + length n \<le> length s"
  by (induction s arbitrary: i) (auto split: if_splits dest: prefix_length_le)

lemma strstr_Some_first:
  "strstr s n = Some i \<Longrightarrow> j < i \<Longrightarrow> \<not> prefix n (drop j s)"
proof (induction s arbitrary: i j)
  case Nil then show ?case by (simp split: if_splits)
next
  case (Cons c cs)
  then show ?case by (cases j) (auto split: if_splits)
qed

lemma strstr_None:
  "strstr s n = None \<Longrightarrow> \<not> prefix n (drop j s)"
proof (induction s arbitrary: j)
  case Nil then show ?case by (simp split: if_splits)
next
  case (Cons c cs)
  then show ?case by (cases j) (auto split: if_splits)
qed

lemma strstr_eqI:
  "prefix n (drop i s) \<Longrightarrow> i \<le> length s \<Longrightarrow> (\<And>j. j < i \<Longrightarrow> \<not> prefix n (drop j s)) \<Longrightarrow>
   strstr s n = Some i"
proof (induction s arbitrary: i)
  case Nil then show ?case by simp
next
  case (Cons c cs)
  show ?case
  proof (cases i)
    case 0 with Cons.prems show ?thesis by simp
  next
    case (Suc k)
    have "\<not> prefix n (c # cs)" using Cons.prems(3)[of 0] Suc by simp
    moreover have "strstr cs n = Some k"
    proof (rule Cons.IH)
      show "prefix n (drop k cs)" using Cons.prems(1) Suc by simp
      show "k \<le> length cs" using Cons.prems(2) Suc by simp
      fix j assume "j < k"
      then show "\<not> prefix n (drop j cs)" using Cons.prems(3)[of "Suc j"] Suc by simp
    qed
    ultimately show ?thesis using Suc by simp
  qed
qed

text \<open>\<open>strstr\<close> answers exactly when the needle is a substring.\<close>

lemma strstr_sublist: "strstr s n \<noteq> None \<longleftrightarrow> sublist n s"
proof
  assume "strstr s n \<noteq> None"
  then obtain i where i: "strstr s n = Some i" by auto
  from strstr_Some_prefix[OF i] obtain zs where "drop i s = n @ zs" by (auto simp: prefix_def)
  then have "s = take i s @ n @ zs" by (metis append_take_drop_id)
  then show "sublist n s" unfolding sublist_def by blast
next
  assume "sublist n s"
  then obtain xs zs where "s = xs @ n @ zs" unfolding sublist_def by blast
  then have "prefix n (drop (length xs) s)" by simp
  then show "strstr s n \<noteq> None" using strstr_None by blast
qed

subsection \<open>The derived paths in closed form\<close>

lemma derive_paths_strings:
  fixes path :: string
  defines "app \<equiv> cut_at_contents (take 1023 (takeWhile (\<lambda>c. c \<noteq> NUL) path))"
  shows "\<exists>a r s. derive_paths fr (path @ [NUL]) = Some (a, r, s)
           \<and> length a = 1024 \<and> length r = 1024 \<and> length s = 1024
           \<and> c_str a = Some app
           \<and> c_str r = Some (take 1023 (app @ ''/Contents/Resources''))
           \<and> c_str s = Some (take 1023 (app @ ''/Contents/Resources/launcher.sh''))"
proof -
  let ?exe = "takeWhile (\<lambda>c. c \<noteq> NUL) path"
  let ?t = "take 1023 ?exe"
  have exe: "NUL \<notin> set ?exe" by (auto dest: set_takeWhileD)
  obtain a0 where a0: "snprintf (uninitialised (app_junk fr) 1024) 1024 ?exe = Some a0"
      "length a0 = 1024" "c_str a0 = Some ?t"
    using snprintf_c_str[of 1024 "uninitialised (app_junk fr) 1024" ?exe] exe
    by (auto simp: length_uninitialised)
  obtain a where a: "(case strstr ?t ''/Contents/'' of None \<Rightarrow> Some a0
                       | Some contents_pos \<Rightarrow> poke a0 contents_pos NUL) = Some a"
      "length a = 1024" "c_str a = Some app"
  proof (cases "strstr ?t ''/Contents/''")
    case None
    then show ?thesis using a0 that[of a0] by (simp add: app_def cut_at_contents_def)
  next
    case (Some i)
    then have "i \<le> length ?t" using strstr_Some_le[OF Some] by simp
    from poke_c_str[OF a0(3) this] Some a0(2) that show ?thesis
      by (auto simp: app_def cut_at_contents_def)
  qed
  have app: "NUL \<notin> set app" using a(3) by (rule c_str_no_NUL)
  obtain r where r:
      "snprintf (uninitialised (resources_junk fr) 1024) 1024 (app @ ''/Contents/Resources'') = Some r"
      "length r = 1024" "c_str r = Some (take 1023 (app @ ''/Contents/Resources''))"
    using snprintf_c_str[of 1024 "uninitialised (resources_junk fr) 1024"
        "app @ ''/Contents/Resources''"] app
    by (auto simp: NUL_def length_uninitialised)
  obtain s where s:
      "snprintf (uninitialised (script_junk fr) 1024) 1024 (app @ ''/Contents/Resources/launcher.sh'') = Some s"
      "length s = 1024" "c_str s = Some (take 1023 (app @ ''/Contents/Resources/launcher.sh''))"
    using snprintf_c_str[of 1024 "uninitialised (script_junk fr) 1024"
        "app @ ''/Contents/Resources/launcher.sh''"] app
    by (auto simp: NUL_def length_uninitialised)
  have "derive_paths fr (path @ [NUL]) = Some (a, r, s)"
    unfolding derive_paths_def Let_def
    by (simp only: c_str_block a0 a r s bind.bind_lunit)
  then show ?thesis using a r s by blast
qed

lemma path_strings:
  fixes path :: string
  defines "app \<equiv> cut_at_contents (take 1023 (takeWhile (\<lambda>c. c \<noteq> NUL) path))"
  shows "app_root fr path = Some app"
    and "resources_path fr path = Some (take 1023 (app @ ''/Contents/Resources''))"
    and "script_path fr path = Some (take 1023 (app @ ''/Contents/Resources/launcher.sh''))"
proof -
  from derive_paths_strings[of fr path] obtain a r s where
    "derive_paths fr (path @ [NUL]) = Some (a, r, s)" "c_str a = Some app"
    "c_str r = Some (take 1023 (app @ ''/Contents/Resources''))"
    "c_str s = Some (take 1023 (app @ ''/Contents/Resources/launcher.sh''))"
    unfolding app_def by blast
  then show "app_root fr path = Some app"
    and "resources_path fr path = Some (take 1023 (app @ ''/Contents/Resources''))"
    and "script_path fr path = Some (take 1023 (app @ ''/Contents/Resources/launcher.sh''))"
    by (simp_all add: app_root_def resources_path_def script_path_def)
qed

subsection \<open>\<open>main\<close> in closed form\<close>

lemma main_unresolved:
  assumes "(case argv0 argv of None \<Rightarrow> None | Some f \<Rightarrow> os_realpath sys f) = None"
  shows "main sys fr argv s0 =
           (Exit 1, s0\<lparr>stderr := stderr s0 @ msg_resolve,
                       trace := trace s0 @ [EvRealpath (argv0 argv)]\<rparr>)"
  using assms
  by (auto simp: main_def realpath_def log_event_def fprintf_stderr_def Let_def split: option.splits)

lemma main_resolved:
  assumes "os_realpath sys a = Some (p, path)"
    and "script_path fr path = Some sp" and "resources_path fr path = Some rp"
  shows "main sys fr (a # args) s0 =
     (if \<not> os_stat sys sp then
        (Exit 1, s0\<lparr>stderr := stderr s0 @ msg_not_found sp,
                    heap := (heap s0)(p := None),
                    trace := trace s0 @ [EvRealpath (Some a), EvStat sp, EvFree p]\<rparr>)
      else if \<not> os_chdir sys rp then
        (Exit 1, s0\<lparr>stderr := stderr s0 @ msg_chdir,
                    heap := (heap s0)(p := None),
                    trace := trace s0 @ [EvRealpath (Some a), EvStat sp, EvChdir rp, EvFree p]\<rparr>)
      else if os_execl sys sp [sp] then
        (Replaced \<lparr>img_path = sp, img_argv = [sp], img_environ = environ s0, img_cwd = rp\<rparr>,
         s0\<lparr>cwd := rp,
            heap := (heap s0)(p \<mapsto> path @ [NUL]),
            trace := trace s0 @ [EvRealpath (Some a), EvStat sp, EvChdir rp, EvExecl sp [sp]]\<rparr>)
      else
        (Exit 1, s0\<lparr>cwd := rp,
                    stderr := stderr s0 @ msg_exec,
                    heap := (heap s0)(p := None),
                    trace := trace s0 @ [EvRealpath (Some a), EvStat sp, EvChdir rp,
                                         EvExecl sp [sp], EvFree p]\<rparr>))"
proof -
  from derive_paths_strings[of fr path] obtain b r s where
    d: "derive_paths fr (path @ [NUL]) = Some (b, r, s)" by blast
  from d assms(2) have s: "c_str s = Some sp" by (simp add: script_path_def)
  from d assms(3) have r: "c_str r = Some rp" by (simp add: resources_path_def)
  show ?thesis
    by (simp add: main_def realpath_def argv0_def assms(1) d s r stat_def chdir_def execl_def
        log_event_def fprintf_stderr_def free_def Let_def)
qed

lemma paths_total:
  "\<exists>sp rp. script_path fr path = Some sp \<and> resources_path fr path = Some rp"
  by (simp add: path_strings)

text \<open>Every run either fails to resolve, or resolves and has its two derived paths.\<close>

lemma main_cases:
  obtains (unresolved) "(case argv0 argv of None \<Rightarrow> None | Some f \<Rightarrow> os_realpath sys f) = None"
  | (resolved) a args p path sp rp where "argv = a # args" "os_realpath sys a = Some (p, path)"
      "script_path fr path = Some sp" "resources_path fr path = Some rp"
proof (cases "case argv0 argv of None \<Rightarrow> None | Some f \<Rightarrow> os_realpath sys f")
  case None
  then show ?thesis by (rule unresolved)
next
  case (Some pp)
  then obtain a args where argv: "argv = a # args"
    by (cases argv) (auto simp: argv0_def)
  obtain p path where pp: "pp = (p, path)" by (cases pp)
  have r: "os_realpath sys a = Some (p, path)" using Some argv pp by (simp add: argv0_def)
  from paths_total[of fr path] obtain sp rp where
    "script_path fr path = Some sp" "resources_path fr path = Some rp" by blast
  with argv r show ?thesis by (rule resolved)
qed

subsection \<open>The test vectors evaluated\<close>

lemma bundle_exe_paths:
  "app_root fr bundle_exe = Some ''/Applications/SSHPilot.app''"
  "resources_path fr bundle_exe = Some ''/Applications/SSHPilot.app/Contents/Resources''"
  "script_path fr bundle_exe = Some ''/Applications/SSHPilot.app/Contents/Resources/launcher.sh''"
  by (simp_all add: path_strings bundle_exe_def cut_at_contents_def NUL_def)

lemma plain_exe_paths:
  "app_root fr plain_exe = Some ''/usr/local/bin/sshpilot''"
  "resources_path fr plain_exe = Some ''/usr/local/bin/sshpilot/Contents/Resources''"
  "script_path fr plain_exe = Some ''/usr/local/bin/sshpilot/Contents/Resources/launcher.sh''"
  by (simp_all add: path_strings plain_exe_def cut_at_contents_def NUL_def)

lemma test_os_realpath:
  "os_realpath (test_os path st ch ex) f = Some (64, path)"
  by (simp add: test_os_def)

section \<open>The claims\<close>

subsection \<open>Bounded formatting\<close>

lemma cut_at_contents_prefix: "prefix (cut_at_contents s) s"
  by (simp add: cut_at_contents_def take_is_prefix split: option.splits)

lemma app_prefix: "prefix (cut_at_contents (take 1023 (takeWhile (\<lambda>c. c \<noteq> NUL) path))) path"
proof -
  have "prefix (take 1023 (takeWhile (\<lambda>c. c \<noteq> NUL) path)) (takeWhile (\<lambda>c. c \<noteq> NUL) path)"
    by (rule take_is_prefix)
  moreover have "prefix (takeWhile (\<lambda>c. c \<noteq> NUL) path) path"
    by (metis prefixI takeWhile_dropWhile_id)
  ultimately show ?thesis
    using cut_at_contents_prefix prefix_order.order_trans by blast
qed

text \<open>
  C9. For every canonical path, of any length, the construction of the three paths stores
  only inside the 1024-byte buffers (the derivation, whose every store is bounds-checked,
  does not fail), leaves each buffer of 1024 bytes holding a NUL-terminated string, and
  that string is a truncation of the intended one: \<open>app_path\<close> holds a prefix of the
  canonical path, \<open>resources_path\<close> and \<open>script_path\<close> hold prefixes of that root
  followed by the fixed suffixes.
\<close>

theorem derive_paths_in_bounds:
  "\<exists>a r s app res scr.
      derive_paths fr (path @ [NUL]) = Some (a, r, s)
    \<and> length a = 1024 \<and> length r = 1024 \<and> length s = 1024
    \<and> c_str a = Some app \<and> prefix app path
    \<and> c_str r = Some res \<and> prefix res (app @ ''/Contents/Resources'')
    \<and> c_str s = Some scr \<and> prefix scr (app @ ''/Contents/Resources/launcher.sh'')"
proof -
  let ?app = "cut_at_contents (take 1023 (takeWhile (\<lambda>c. c \<noteq> NUL) path))"
  from derive_paths_strings[of fr path] obtain a r s where
    "derive_paths fr (path @ [NUL]) = Some (a, r, s)"
    "length a = 1024" "length r = 1024" "length s = 1024"
    "c_str a = Some ?app"
    "c_str r = Some (take 1023 (?app @ ''/Contents/Resources''))"
    "c_str s = Some (take 1023 (?app @ ''/Contents/Resources/launcher.sh''))"
    by blast
  moreover have "prefix ?app path" by (rule app_prefix)
  moreover have "prefix (take 1023 (?app @ ''/Contents/Resources'')) (?app @ ''/Contents/Resources'')"
    by (rule take_is_prefix)
  moreover have "prefix (take 1023 (?app @ ''/Contents/Resources/launcher.sh''))
                   (?app @ ''/Contents/Resources/launcher.sh'')"
    by (rule take_is_prefix)
  ultimately show ?thesis by blast
qed

theorem derive_paths_in_bounds_witness:
  "\<exists>a r s app res scr.
      derive_paths stack_junk (overlong_exe @ [NUL]) = Some (a, r, s)
    \<and> length a = 1024 \<and> length r = 1024 \<and> length s = 1024
    \<and> c_str a = Some app \<and> prefix app overlong_exe
    \<and> c_str r = Some res \<and> prefix res (app @ ''/Contents/Resources'')
    \<and> c_str s = Some scr \<and> prefix scr (app @ ''/Contents/Resources/launcher.sh'')"
  by (rule derive_paths_in_bounds)

subsection \<open>Exit status and diagnostics\<close>

lemma diagnostics_prefix:
  "prefix ''Error: '' msg_resolve" "prefix ''Error: '' (msg_not_found sp)"
  "prefix ''Error: '' msg_chdir" "prefix ''Error: '' msg_exec"
  by (simp_all add: msg_resolve_def msg_not_found_def msg_chdir_def msg_exec_def)

text \<open>
  C4. No run returns status 0: a run either replaces the process image, writing nothing
  to the error stream, or returns 1 after appending to the error stream a line that
  starts with \<open>Error: \<close>. Each of the four failures returns 1 with its own diagnostic:
  \<^verbatim>\<open>realpath\<close> failing (also on an empty argument vector), \<^verbatim>\<open>stat\<close> failing on the
  script path, \<^verbatim>\<open>chdir\<close> failing on the resources path, \<^verbatim>\<open>execl\<close> returning.
\<close>

theorem every_failure_exits_1:
  "fst (main sys fr argv s0) \<noteq> Exit 0
   \<and> ((\<exists>img. fst (main sys fr argv s0) = Replaced img
             \<and> stderr (snd (main sys fr argv s0)) = stderr s0)
      \<or> (\<exists>d. fst (main sys fr argv s0) = Exit 1
             \<and> stderr (snd (main sys fr argv s0)) = stderr s0 @ d \<and> prefix ''Error: '' d))
   \<and> ((case argv0 argv of None \<Rightarrow> None | Some f \<Rightarrow> os_realpath sys f) = None \<longrightarrow>
        fst (main sys fr argv s0) = Exit 1
        \<and> stderr (snd (main sys fr argv s0)) = stderr s0 @ msg_resolve)
   \<and> (\<forall>a args p path sp rp.
        argv = a # args \<and> os_realpath sys a = Some (p, path)
        \<and> script_path fr path = Some sp \<and> resources_path fr path = Some rp \<longrightarrow>
          (\<not> os_stat sys sp \<longrightarrow>
             fst (main sys fr argv s0) = Exit 1
             \<and> stderr (snd (main sys fr argv s0)) = stderr s0 @ msg_not_found sp)
        \<and> (os_stat sys sp \<and> \<not> os_chdir sys rp \<longrightarrow>
             fst (main sys fr argv s0) = Exit 1
             \<and> stderr (snd (main sys fr argv s0)) = stderr s0 @ msg_chdir)
        \<and> (os_stat sys sp \<and> os_chdir sys rp \<and> \<not> os_execl sys sp [sp] \<longrightarrow>
             fst (main sys fr argv s0) = Exit 1
             \<and> stderr (snd (main sys fr argv s0)) = stderr s0 @ msg_exec))"
proof (cases rule: main_cases[where argv=argv and sys=sys and fr=fr])
  case unresolved
  then show ?thesis
    by (auto simp: main_unresolved diagnostics_prefix argv0_def)
next
  case (resolved a args p path sp rp)
  have m: "main sys fr argv s0 = main sys fr (a # args) s0" using resolved(1) by simp
  show ?thesis
    unfolding m main_resolved[OF resolved(2-4)]
    using resolved diagnostics_prefix
    by (auto simp: argv0_def)
qed

theorem every_failure_exits_1_witness:
  "fst (main no_os stack_junk [''./sshpilot''] fresh_proc) = Exit 1
   \<and> stderr (snd (main no_os stack_junk [''./sshpilot''] fresh_proc)) = msg_resolve
   \<and> fst (main (test_os bundle_exe False True True) stack_junk [''./sshpilot''] fresh_proc) = Exit 1
   \<and> stderr (snd (main (test_os bundle_exe False True True) stack_junk [''./sshpilot''] fresh_proc))
       = msg_not_found ''/Applications/SSHPilot.app/Contents/Resources/launcher.sh''
   \<and> fst (main (test_os bundle_exe True False True) stack_junk [''./sshpilot''] fresh_proc) = Exit 1
   \<and> stderr (snd (main (test_os bundle_exe True False True) stack_junk [''./sshpilot''] fresh_proc))
       = msg_chdir
   \<and> fst (main (test_os bundle_exe True True False) stack_junk [''./sshpilot''] fresh_proc) = Exit 1
   \<and> stderr (snd (main (test_os bundle_exe True True False) stack_junk [''./sshpilot''] fresh_proc))
       = msg_exec"
proof -
  note sp = bundle_exe_paths(3)[of stack_junk] and rp = bundle_exe_paths(2)[of stack_junk]
  note r = test_os_realpath[of bundle_exe _ _ _ "''./sshpilot''"]
  have 1: "fst (main no_os stack_junk [''./sshpilot''] fresh_proc) = Exit 1
     \<and> stderr (snd (main no_os stack_junk [''./sshpilot''] fresh_proc)) = msg_resolve"
    using every_failure_exits_1[of no_os stack_junk "[''./sshpilot'']" fresh_proc]
    by (simp add: argv0_def no_os_def fresh_proc_def)
  have 2: "fst (main (test_os bundle_exe False True True) stack_junk [''./sshpilot''] fresh_proc) = Exit 1
     \<and> stderr (snd (main (test_os bundle_exe False True True) stack_junk [''./sshpilot''] fresh_proc))
       = msg_not_found ''/Applications/SSHPilot.app/Contents/Resources/launcher.sh''"
    using every_failure_exits_1[of "test_os bundle_exe False True True" stack_junk "[''./sshpilot'']" fresh_proc,
        THEN conjunct2, THEN conjunct2, THEN conjunct2, rule_format,
        of "''./sshpilot''" "[]" 64 bundle_exe _ _, OF conjI[OF refl conjI[OF r conjI[OF sp rp]]]]
    by (simp add: test_os_def fresh_proc_def)
  have 3: "fst (main (test_os bundle_exe True False True) stack_junk [''./sshpilot''] fresh_proc) = Exit 1
     \<and> stderr (snd (main (test_os bundle_exe True False True) stack_junk [''./sshpilot''] fresh_proc))
       = msg_chdir"
    using every_failure_exits_1[of "test_os bundle_exe True False True" stack_junk "[''./sshpilot'']" fresh_proc,
        THEN conjunct2, THEN conjunct2, THEN conjunct2, rule_format,
        of "''./sshpilot''" "[]" 64 bundle_exe _ _, OF conjI[OF refl conjI[OF r conjI[OF sp rp]]]]
    by (simp add: test_os_def fresh_proc_def)
  have 4: "fst (main (test_os bundle_exe True True False) stack_junk [''./sshpilot''] fresh_proc) = Exit 1
     \<and> stderr (snd (main (test_os bundle_exe True True False) stack_junk [''./sshpilot''] fresh_proc))
       = msg_exec"
    using every_failure_exits_1[of "test_os bundle_exe True True False" stack_junk "[''./sshpilot'']" fresh_proc,
        THEN conjunct2, THEN conjunct2, THEN conjunct2, rule_format,
        of "''./sshpilot''" "[]" 64 bundle_exe _ _, OF conjI[OF refl conjI[OF r conjI[OF sp rp]]]]
    by (simp add: test_os_def fresh_proc_def)
  from 1 2 3 4 show ?thesis by blast
qed

subsection \<open>Truncation and the marker\<close>

lemma takeWhile_no_NUL: "NUL \<notin> set path \<Longrightarrow> takeWhile (\<lambda>c. c \<noteq> NUL) path = path"
  by (simp add: takeWhile_eq_all_conv) metis

lemma prefix_of_take: "prefix n (take k s) \<Longrightarrow> prefix n s"
  using prefix_order.order_trans take_is_prefix by blast

lemma strstr_take:
  assumes "strstr s n = Some i" "i + length n \<le> k"
  shows "strstr (take k s) n = Some i"
proof (rule strstr_eqI)
  from strstr_Some_prefix[OF assms(1)] obtain zs where d: "drop i s = n @ zs"
    by (auto simp: prefix_def)
  have "drop i (take k s) = take (k - i) (drop i s)" by (simp add: drop_take)
  also have "\<dots> = n @ take (k - i - length n) zs" using assms(2) d by simp
  finally show "prefix n (drop i (take k s))" by simp
  show "i \<le> length (take k s)" using strstr_Some_le[OF assms(1)] assms(2) by simp
  fix j assume "j < i"
  then have "\<not> prefix n (drop j s)" using assms(1) strstr_Some_first by blast
  moreover have "drop j (take k s) = take (k - j) (drop j s)" by (simp add: drop_take)
  ultimately show "\<not> prefix n (drop j (take k s))" using prefix_of_take by metis
qed

lemma strstr_take_None:
  assumes "strstr s n = None"
  shows "strstr (take k s) n = None"
proof (rule ccontr)
  assume "strstr (take k s) n \<noteq> None"
  then obtain i where "strstr (take k s) n = Some i" by auto
  then have "prefix n (drop i (take k s))" by (rule strstr_Some_prefix)
  then have "prefix n (take (k - i) (drop i s))" by (simp add: drop_take)
  then have "prefix n (drop i s)" by (rule prefix_of_take)
  then show False using assms strstr_None by blast
qed

lemma strstr_None_if_missing:
  assumes "c \<in> set n" "c \<notin> set s"
  shows "strstr s n = None"
proof (rule ccontr)
  assume "strstr s n \<noteq> None"
  then have "sublist n s" using strstr_sublist[of s n] by blast
  then have "set n \<subseteq> set s" by (rule set_mono_sublist)
  then show False using assms by blast
qed

lemma strstr_marker_at:
  assumes "CHR ''C'' \<notin> set root"
  shows "strstr (root @ ''/Contents/'' @ rest) ''/Contents/'' = Some (length root)"
proof (rule strstr_eqI)
  show "prefix ''/Contents/'' (drop (length root) (root @ ''/Contents/'' @ rest))" by simp
  show "length root \<le> length (root @ ''/Contents/'' @ rest)" by simp
  fix j assume j: "j < length root"
  show "\<not> prefix ''/Contents/'' (drop j (root @ ''/Contents/'' @ rest))"
  proof
    assume p: "prefix ''/Contents/'' (drop j (root @ ''/Contents/'' @ rest))"
    have d: "drop j (root @ ''/Contents/'' @ rest) = drop j root @ ''/Contents/'' @ rest"
      using j by simp
    obtain x xs where x: "drop j root = x # xs" using j by (cases "drop j root") auto
    from p have p': "prefix ''/Contents/'' ((x # xs) @ ''/Contents/'' @ rest)"
      unfolding d x .
    show False
    proof (cases xs)
      case Nil
      with p' show ?thesis by simp
    next
      case (Cons y ys)
      with p' have "y = CHR ''C''" by simp
      moreover have "y \<in> set (drop j root)" using x Cons by simp
      ultimately show ?thesis using assms by (auto dest: in_set_dropD)
    qed
  qed
qed

lemma length_long_root: "length long_root = 996"
  by (simp add: long_root_def long_dir_def)

lemma set_long_root: "set long_root = {CHR ''/'', CHR ''a''}"
  by (auto simp: long_root_def long_dir_def)

lemma long_bundle_exe_facts:
  "NUL \<notin> set long_bundle_exe" "length long_bundle_exe = 1020"
  "strstr long_bundle_exe ''/Contents/'' = Some 996"
  "take 996 long_bundle_exe = long_root"
proof -
  show "NUL \<notin> set long_bundle_exe"
    by (simp add: long_bundle_exe_def set_long_root NUL_def)
  show "length long_bundle_exe = 1020"
    by (simp add: long_bundle_exe_def length_long_root)
  have "CHR ''C'' \<notin> set long_root" by (simp add: set_long_root)
  from strstr_marker_at[OF this, of "''MacOS/sshpilot''"]
  show "strstr long_bundle_exe ''/Contents/'' = Some 996"
    by (simp only: long_bundle_exe_def length_long_root)
  show "take 996 long_bundle_exe = long_root"
    by (simp add: long_bundle_exe_def length_long_root)
qed

text \<open>
  C1 (amended). Let the canonical executable path be a C string that contains
  \<^verbatim>\<open>/Contents/\<close>, its first occurrence starting at offset \<open>i\<close>. If \<open>i \<le> 1013\<close> (the
  marker lies within the 1023 bytes \<open>app_path\<close> can hold), the bundle root is the prefix
  of the path before that occurrence. If \<open>i \<le> 1004\<close>, \<open>resources_path\<close> is that root
  followed by \<^verbatim>\<open>/Contents/Resources\<close>. If \<open>i \<le> 992\<close>, \<open>script_path\<close> is that root followed
  by \<^verbatim>\<open>/Contents/Resources/launcher.sh\<close>. Beyond these bounds \<^verbatim>\<open>snprintf\<close> truncates:
  with a root of 996 bytes the script path ends in \<^verbatim>\<open>/launche\<close>.
\<close>

theorem bundle_paths:
  assumes "NUL \<notin> set path" and "strstr path ''/Contents/'' = Some i"
  shows "(i \<le> 1013 \<longrightarrow> app_root fr path = Some (take i path))
       \<and> (i \<le> 1004 \<longrightarrow> resources_path fr path = Some (take i path @ ''/Contents/Resources''))
       \<and> (i \<le> 992 \<longrightarrow>
            script_path fr path = Some (take i path @ ''/Contents/Resources/launcher.sh''))"
proof -
  have cut: "cut_at_contents (take 1023 (takeWhile (\<lambda>c. c \<noteq> NUL) path)) = take i path"
    if "i \<le> 1013"
  proof -
    have "strstr (take 1023 path) ''/Contents/'' = Some i"
      using assms(2) that by (intro strstr_take) simp_all
    then show ?thesis
      using that by (simp add: cut_at_contents_def takeWhile_no_NUL[OF assms(1)] min_def)
  qed
  show ?thesis
    by (auto simp: path_strings cut)
qed

theorem bundle_paths_witness:
  "NUL \<notin> set bundle_exe \<and> strstr bundle_exe ''/Contents/'' = Some 26
   \<and> app_root stack_junk bundle_exe = Some (take 26 bundle_exe)
   \<and> resources_path stack_junk bundle_exe = Some (take 26 bundle_exe @ ''/Contents/Resources'')
   \<and> script_path stack_junk bundle_exe = Some (take 26 bundle_exe @ ''/Contents/Resources/launcher.sh'')"
proof -
  have 1: "NUL \<notin> set bundle_exe" by (simp add: bundle_exe_def NUL_def)
  have 2: "strstr bundle_exe ''/Contents/'' = Some 26" by (simp add: bundle_exe_def)
  from bundle_paths[OF 1 2, of stack_junk] 1 2 show ?thesis by simp
qed

theorem bundle_paths_counterexample:
  "NUL \<notin> set long_bundle_exe \<and> strstr long_bundle_exe ''/Contents/'' = Some 996
   \<and> script_path stack_junk long_bundle_exe = Some (take 996 long_bundle_exe @ ''/Contents/Resources/launche'')
   \<and> script_path stack_junk long_bundle_exe
       \<noteq> Some (take 996 long_bundle_exe @ ''/Contents/Resources/launcher.sh'')"
proof -
  have "cut_at_contents (take 1023 (takeWhile (\<lambda>c. c \<noteq> NUL) long_bundle_exe)) = long_root"
    by (simp add: takeWhile_no_NUL long_bundle_exe_facts cut_at_contents_def)
  then have "script_path stack_junk long_bundle_exe = Some (long_root @ ''/Contents/Resources/launche'')"
    by (simp add: path_strings length_long_root)
  then show ?thesis by (simp add: long_bundle_exe_facts)
qed

lemma long_plain_exe_facts:
  "NUL \<notin> set long_plain_exe" "length long_plain_exe = 1005"
  "strstr long_plain_exe ''/Contents/'' = None"
proof -
  show "NUL \<notin> set long_plain_exe"
    by (simp add: long_plain_exe_def set_long_root NUL_def)
  show "length long_plain_exe = 1005"
    by (simp add: long_plain_exe_def length_long_root)
  show "strstr long_plain_exe ''/Contents/'' = None"
    by (rule strstr_None_if_missing[of "CHR ''C''"])
       (simp_all add: long_plain_exe_def set_long_root)
qed

text \<open>
  C2 (amended). Let the canonical executable path be a C string that does not contain
  \<^verbatim>\<open>/Contents/\<close>. The derivation does not fail. If the path has at most 1023 bytes the
  bundle root is the whole path; if at most 1004, \<open>resources_path\<close> is the path followed
  by \<^verbatim>\<open>/Contents/Resources\<close>; if at most 992, \<open>script_path\<close> is the path followed by
  \<^verbatim>\<open>/Contents/Resources/launcher.sh\<close>. Whatever the length, when \<^verbatim>\<open>stat\<close> fails on the
  derived script path the run returns 1 with the script-not-found diagnostic. A longer
  path is truncated: at 1005 bytes the script path ends in \<^verbatim>\<open>/Contents/Resource\<close>.
\<close>

theorem plain_paths:
  assumes "NUL \<notin> set path" and "strstr path ''/Contents/'' = None"
  shows "(length path \<le> 1023 \<longrightarrow> app_root fr path = Some path)
       \<and> (length path \<le> 1004 \<longrightarrow> resources_path fr path = Some (path @ ''/Contents/Resources''))
       \<and> (length path \<le> 992 \<longrightarrow>
            script_path fr path = Some (path @ ''/Contents/Resources/launcher.sh''))
       \<and> (\<forall>sys a args p sp s0.
            os_realpath sys a = Some (p, path) \<and> script_path fr path = Some sp \<and> \<not> os_stat sys sp \<longrightarrow>
              fst (main sys fr (a # args) s0) = Exit 1
              \<and> stderr (snd (main sys fr (a # args) s0)) = stderr s0 @ msg_not_found sp)"
proof -
  have "strstr (take 1023 path) ''/Contents/'' = None"
    using assms(2) by (rule strstr_take_None)
  then have cut: "cut_at_contents (take 1023 (takeWhile (\<lambda>c. c \<noteq> NUL) path)) = take 1023 path"
    by (simp add: cut_at_contents_def takeWhile_no_NUL[OF assms(1)])
  have paths: "(length path \<le> 1023 \<longrightarrow> app_root fr path = Some path)
       \<and> (length path \<le> 1004 \<longrightarrow> resources_path fr path = Some (path @ ''/Contents/Resources''))
       \<and> (length path \<le> 992 \<longrightarrow>
            script_path fr path = Some (path @ ''/Contents/Resources/launcher.sh''))"
    by (auto simp: path_strings cut)
  have run: "fst (main sys fr (a # args) s0) = Exit 1
              \<and> stderr (snd (main sys fr (a # args) s0)) = stderr s0 @ msg_not_found sp"
    if "os_realpath sys a = Some (p, path)" "script_path fr path = Some sp" "\<not> os_stat sys sp"
    for sys :: os and a args p sp s0
  proof -
    from paths_total[of fr path] that(2) obtain rp where "resources_path fr path = Some rp"
      by auto
    from main_resolved[OF that(1,2) this] that(3) show ?thesis by simp
  qed
  from paths run show ?thesis by blast
qed

theorem plain_paths_witness:
  "NUL \<notin> set plain_exe \<and> strstr plain_exe ''/Contents/'' = None
   \<and> app_root stack_junk plain_exe = Some plain_exe
   \<and> resources_path stack_junk plain_exe = Some (plain_exe @ ''/Contents/Resources'')
   \<and> script_path stack_junk plain_exe = Some (plain_exe @ ''/Contents/Resources/launcher.sh'')
   \<and> \<not> os_stat (test_os plain_exe False True True) (plain_exe @ ''/Contents/Resources/launcher.sh'')
   \<and> fst (main (test_os plain_exe False True True) stack_junk [''sshpilot''] fresh_proc) = Exit 1
   \<and> stderr (snd (main (test_os plain_exe False True True) stack_junk [''sshpilot''] fresh_proc))
       = msg_not_found (plain_exe @ ''/Contents/Resources/launcher.sh'')"
proof -
  have 1: "NUL \<notin> set plain_exe" by (simp add: plain_exe_def NUL_def)
  have 2: "strstr plain_exe ''/Contents/'' = None" by (simp add: plain_exe_def)
  have 3: "length plain_exe \<le> 992" by (simp add: plain_exe_def)
  note T = plain_paths[OF 1 2, of stack_junk]
  from T 3 have paths: "app_root stack_junk plain_exe = Some plain_exe"
    "resources_path stack_junk plain_exe = Some (plain_exe @ ''/Contents/Resources'')"
    "script_path stack_junk plain_exe = Some (plain_exe @ ''/Contents/Resources/launcher.sh'')"
    by simp_all
  have 4: "\<not> os_stat (test_os plain_exe False True True) (plain_exe @ ''/Contents/Resources/launcher.sh'')"
    by (simp add: test_os_def)
  from T[THEN conjunct2, THEN conjunct2, THEN conjunct2, rule_format,
      of "test_os plain_exe False True True" "''sshpilot''" 64 _ "[]" fresh_proc,
      OF conjI[OF test_os_realpath conjI[OF paths(3) 4]]]
  have "fst (main (test_os plain_exe False True True) stack_junk [''sshpilot''] fresh_proc) = Exit 1
   \<and> stderr (snd (main (test_os plain_exe False True True) stack_junk [''sshpilot''] fresh_proc))
       = msg_not_found (plain_exe @ ''/Contents/Resources/launcher.sh'')"
    by (simp add: fresh_proc_def)
  with 1 2 paths 4 show ?thesis by blast
qed

theorem plain_paths_counterexample:
  "NUL \<notin> set long_plain_exe \<and> strstr long_plain_exe ''/Contents/'' = None
   \<and> script_path stack_junk long_plain_exe = Some (long_plain_exe @ ''/Contents/Resource'')
   \<and> script_path stack_junk long_plain_exe
        \<noteq> Some (long_plain_exe @ ''/Contents/Resources/launcher.sh'')"
proof -
  have "cut_at_contents (take 1023 (takeWhile (\<lambda>c. c \<noteq> NUL) long_plain_exe)) = long_plain_exe"
    by (simp add: takeWhile_no_NUL long_plain_exe_facts cut_at_contents_def)
  then have "script_path stack_junk long_plain_exe = Some (long_plain_exe @ ''/Contents/Resource'')"
    by (simp add: path_strings long_plain_exe_facts)
  then show ?thesis by (simp add: long_plain_exe_facts)
qed

lemma overlong_exe_facts:
  "NUL \<notin> set overlong_exe" "length overlong_exe = 1058"
  "strstr overlong_exe ''/Contents/'' = Some 1017"
  "prefix ''/Contents/'' (drop 1034 overlong_exe)"
  "strstr (take 1023 overlong_exe) ''/Contents/'' = None"
proof -
  let ?root = "long_root @ CHR ''/'' # replicate 20 (CHR ''b'')"
  have len: "length ?root = 1017" by (simp add: length_long_root)
  show "NUL \<notin> set overlong_exe"
    by (simp add: overlong_exe_def set_long_root NUL_def)
  show "length overlong_exe = 1058"
    by (simp add: overlong_exe_def length_long_root)
  have "CHR ''C'' \<notin> set ?root" by (simp add: set_long_root)
  from strstr_marker_at[OF this, of "''Foo.app/Contents/MacOS/sshpilot''"]
  show "strstr overlong_exe ''/Contents/'' = Some 1017"
    by (simp only: overlong_exe_def len)
  show "prefix ''/Contents/'' (drop 1034 overlong_exe)"
    by (simp add: overlong_exe_def length_long_root)
  have "take 1023 overlong_exe = ?root @ ''/Conte''"
    by (simp add: overlong_exe_def length_long_root)
  moreover have "CHR ''s'' \<notin> set (?root @ ''/Conte'')" by (simp add: set_long_root)
  ultimately show "strstr (take 1023 overlong_exe) ''/Contents/'' = None"
    by (intro strstr_None_if_missing[of "CHR ''s''"]) simp_all
qed

text \<open>
  C10 (amended). When the canonical executable path contains \<^verbatim>\<open>/Contents/\<close> more than
  once, and the first occurrence starts at an offset \<open>i \<le> 1013\<close> (so that it lies within
  the 1023 bytes \<open>app_path\<close> can hold), the bundle root is the prefix before the first
  occurrence, and not the prefix before any later one. A first occurrence cut by the
  truncation is not found at all: the root is then the first 1023 bytes of the path.
\<close>

theorem first_marker_wins:
  assumes "NUL \<notin> set path" and "strstr path ''/Contents/'' = Some i"
    and "i < j" and "prefix ''/Contents/'' (drop j path)" and "i \<le> 1013"
  shows "app_root fr path = Some (take i path) \<and> app_root fr path \<noteq> Some (take j path)"
proof -
  have "strstr (take 1023 path) ''/Contents/'' = Some i"
    using assms(2,5) by (intro strstr_take) simp_all
  then have root: "app_root fr path = Some (take i path)"
    using assms(5) by (simp add: path_strings cut_at_contents_def takeWhile_no_NUL[OF assms(1)] min_def)
  have "j < length path"
  proof (rule ccontr)
    assume "\<not> j < length path"
    then have "drop j path = []" by simp
    with assms(4) show False by simp
  qed
  then have "length (take i path) \<noteq> length (take j path)" using assms(3) by simp
  then have "take i path \<noteq> take j path" by metis
  with root show ?thesis by simp
qed

theorem first_marker_wins_witness:
  "NUL \<notin> set nested_exe \<and> strstr nested_exe ''/Contents/'' = Some 8
   \<and> prefix ''/Contents/'' (drop 30 nested_exe)
   \<and> app_root stack_junk nested_exe = Some ''/Volumes''
   \<and> app_root stack_junk nested_exe \<noteq> Some ''/Volumes/Contents/SSHPilot.app''"
proof -
  have 1: "NUL \<notin> set nested_exe" by (simp add: nested_exe_def NUL_def)
  have 2: "strstr nested_exe ''/Contents/'' = Some 8" by (simp add: nested_exe_def)
  have 3: "prefix ''/Contents/'' (drop 30 nested_exe)" by (simp add: nested_exe_def)
  from first_marker_wins[OF 1 2 _ 3, of stack_junk] 1 2 3 show ?thesis
    by (simp add: nested_exe_def)
qed

theorem first_marker_wins_counterexample:
  "NUL \<notin> set overlong_exe \<and> strstr overlong_exe ''/Contents/'' = Some 1017
   \<and> prefix ''/Contents/'' (drop 1034 overlong_exe)
   \<and> app_root stack_junk overlong_exe = Some (take 1023 overlong_exe)
   \<and> app_root stack_junk overlong_exe \<noteq> Some (take 1017 overlong_exe)"
proof -
  have "app_root stack_junk overlong_exe = Some (take 1023 overlong_exe)"
    by (simp add: path_strings takeWhile_no_NUL overlong_exe_facts cut_at_contents_def)
  moreover have "length (take 1023 overlong_exe) \<noteq> length (take 1017 overlong_exe)"
    by (simp add: overlong_exe_facts)
  then have "take 1023 overlong_exe \<noteq> take 1017 overlong_exe" by metis
  ultimately show ?thesis by (simp add: overlong_exe_facts)
qed

subsection \<open>Control flow\<close>

text \<open>
  C3. When \<^verbatim>\<open>realpath\<close>, \<^verbatim>\<open>stat\<close> and \<^verbatim>\<open>chdir\<close> succeed, the run calls, in this order,
  \<^verbatim>\<open>realpath\<close>, \<^verbatim>\<open>stat\<close> on the script path, \<^verbatim>\<open>chdir\<close> to the resources path and
  \<^verbatim>\<open>execl\<close> on the script path with the script path as its only argument, whatever
  the arguments of the launcher were; the working directory is then the resources path
  and the environment is the one the launcher started with. When \<^verbatim>\<open>execl\<close> succeeds the
  outcome is the new image, with that path, argument vector, environment and working
  directory, and nothing happens after the call: no further event, nothing on the error
  stream.
\<close>

theorem exec_contract:
  assumes "os_realpath sys a = Some (p, path)"
    and "script_path fr path = Some sp" and "resources_path fr path = Some rp"
    and "os_stat sys sp" and "os_chdir sys rp"
  shows "syscalls (new_events s0 (snd (main sys fr (a # args) s0)))
           = [EvRealpath (Some a), EvStat sp, EvChdir rp, EvExecl sp [sp]]
       \<and> cwd (snd (main sys fr (a # args) s0)) = rp
       \<and> environ (snd (main sys fr (a # args) s0)) = environ s0
       \<and> (os_execl sys sp [sp] \<longrightarrow>
            fst (main sys fr (a # args) s0)
              = Replaced \<lparr>img_path = sp, img_argv = [sp], img_environ = environ s0, img_cwd = rp\<rparr>
          \<and> new_events s0 (snd (main sys fr (a # args) s0))
              = [EvRealpath (Some a), EvStat sp, EvChdir rp, EvExecl sp [sp]]
          \<and> stderr (snd (main sys fr (a # args) s0)) = stderr s0)"
  using assms(4,5)
  by (simp add: main_resolved[OF assms(1-3)] new_events_def syscalls_def)

theorem exec_contract_witness:
  "os_stat (test_os bundle_exe True True True) ''/Applications/SSHPilot.app/Contents/Resources/launcher.sh''
   \<and> os_chdir (test_os bundle_exe True True True) ''/Applications/SSHPilot.app/Contents/Resources''
   \<and> os_execl (test_os bundle_exe True True True)
        ''/Applications/SSHPilot.app/Contents/Resources/launcher.sh''
        [''/Applications/SSHPilot.app/Contents/Resources/launcher.sh'']
   \<and> fst (main (test_os bundle_exe True True True) stack_junk [''./sshpilot'', ''--verbose''] fresh_proc)
       = Replaced \<lparr>img_path = ''/Applications/SSHPilot.app/Contents/Resources/launcher.sh'',
                   img_argv = [''/Applications/SSHPilot.app/Contents/Resources/launcher.sh''],
                   img_environ = [''HOME=/Users/me''],
                   img_cwd = ''/Applications/SSHPilot.app/Contents/Resources''\<rparr>
   \<and> new_events fresh_proc
         (snd (main (test_os bundle_exe True True True) stack_junk [''./sshpilot'', ''--verbose''] fresh_proc))
       = [EvRealpath (Some ''./sshpilot''),
          EvStat ''/Applications/SSHPilot.app/Contents/Resources/launcher.sh'',
          EvChdir ''/Applications/SSHPilot.app/Contents/Resources'',
          EvExecl ''/Applications/SSHPilot.app/Contents/Resources/launcher.sh''
                  [''/Applications/SSHPilot.app/Contents/Resources/launcher.sh'']]"
proof -
  have st: "os_stat (test_os bundle_exe True True True) ''/Applications/SSHPilot.app/Contents/Resources/launcher.sh''"
    and ch: "os_chdir (test_os bundle_exe True True True) ''/Applications/SSHPilot.app/Contents/Resources''"
    and ex: "os_execl (test_os bundle_exe True True True)
        ''/Applications/SSHPilot.app/Contents/Resources/launcher.sh''
        [''/Applications/SSHPilot.app/Contents/Resources/launcher.sh'']"
    by (simp_all add: test_os_def)
  from exec_contract[where ?s0.0 = fresh_proc and args = "[''--verbose'']" and a = "''./sshpilot''"
        and fr = stack_junk,
      OF test_os_realpath bundle_exe_paths(3) bundle_exe_paths(2) st ch] st ch ex
  show ?thesis by (simp add: fresh_proc_def)
qed

text \<open>
  C6. The system calls of a run are an initial segment of \<^verbatim>\<open>realpath\<close>, \<^verbatim>\<open>stat\<close>,
  \<^verbatim>\<open>chdir\<close>, \<^verbatim>\<open>execl\<close>, each made at most once and in this order. A failure ends the
  sequence: after a failed \<^verbatim>\<open>realpath\<close> nothing else is called, after a failed
  \<^verbatim>\<open>stat\<close> neither \<^verbatim>\<open>chdir\<close> nor \<^verbatim>\<open>execl\<close>, after a failed \<^verbatim>\<open>chdir\<close> no \<^verbatim>\<open>execl\<close>.
\<close>

theorem steps_in_order:
  "(\<exists>sp rp. prefix (syscalls (new_events s0 (snd (main sys fr argv s0))))
               [EvRealpath (argv0 argv), EvStat sp, EvChdir rp, EvExecl sp [sp]])
   \<and> ((case argv0 argv of None \<Rightarrow> None | Some f \<Rightarrow> os_realpath sys f) = None \<longrightarrow>
        syscalls (new_events s0 (snd (main sys fr argv s0))) = [EvRealpath (argv0 argv)])
   \<and> (\<forall>a args p path sp rp.
        argv = a # args \<and> os_realpath sys a = Some (p, path)
        \<and> script_path fr path = Some sp \<and> resources_path fr path = Some rp \<longrightarrow>
          (\<not> os_stat sys sp \<longrightarrow>
             syscalls (new_events s0 (snd (main sys fr argv s0)))
               = [EvRealpath (Some a), EvStat sp])
        \<and> (os_stat sys sp \<and> \<not> os_chdir sys rp \<longrightarrow>
             syscalls (new_events s0 (snd (main sys fr argv s0)))
               = [EvRealpath (Some a), EvStat sp, EvChdir rp])
        \<and> (os_stat sys sp \<and> os_chdir sys rp \<longrightarrow>
             syscalls (new_events s0 (snd (main sys fr argv s0)))
               = [EvRealpath (Some a), EvStat sp, EvChdir rp, EvExecl sp [sp]]))"
proof (cases rule: main_cases[where argv=argv and sys=sys and fr=fr])
  case unresolved
  then show ?thesis
    by (auto simp: main_unresolved new_events_def syscalls_def argv0_def)
next
  case (resolved a args p path sp rp)
  have e: "prefix (syscalls (new_events s0 (snd (main sys fr (a # args) s0))))
               [EvRealpath (argv0 (a # args)), EvStat sp, EvChdir rp, EvExecl sp [sp]]"
    by (simp add: main_resolved[OF resolved(2-4)] new_events_def syscalls_def argv0_def)
  show ?thesis
    unfolding resolved(1)
    apply (intro conjI)
    subgoal using e by blast
    subgoal using resolved(2) by (simp add: argv0_def)
    subgoal using resolved(2-4)
      by (auto simp: main_resolved[OF resolved(2-4)] new_events_def syscalls_def)
    done
qed

theorem steps_in_order_witness:
  "prefix (syscalls (new_events fresh_proc
              (snd (main (test_os bundle_exe True False True) stack_junk [''./sshpilot''] fresh_proc))))
      [EvRealpath (argv0 [''./sshpilot'']),
       EvStat ''/Applications/SSHPilot.app/Contents/Resources/launcher.sh'',
       EvChdir ''/Applications/SSHPilot.app/Contents/Resources'',
       EvExecl ''/Applications/SSHPilot.app/Contents/Resources/launcher.sh''
               [''/Applications/SSHPilot.app/Contents/Resources/launcher.sh'']]
   \<and> syscalls (new_events fresh_proc (snd (main no_os stack_junk [''./sshpilot''] fresh_proc)))
       = [EvRealpath (Some ''./sshpilot'')]
   \<and> syscalls (new_events fresh_proc
         (snd (main (test_os bundle_exe False True True) stack_junk [''./sshpilot''] fresh_proc)))
       = [EvRealpath (Some ''./sshpilot''),
          EvStat ''/Applications/SSHPilot.app/Contents/Resources/launcher.sh'']
   \<and> syscalls (new_events fresh_proc
         (snd (main (test_os bundle_exe True False True) stack_junk [''./sshpilot''] fresh_proc)))
       = [EvRealpath (Some ''./sshpilot''),
          EvStat ''/Applications/SSHPilot.app/Contents/Resources/launcher.sh'',
          EvChdir ''/Applications/SSHPilot.app/Contents/Resources'']"
proof -
  note sp = bundle_exe_paths(3)[of stack_junk] and rp = bundle_exe_paths(2)[of stack_junk]
  note r = test_os_realpath[of bundle_exe _ _ _ "''./sshpilot''"]
  have 1: "syscalls (new_events fresh_proc (snd (main no_os stack_junk [''./sshpilot''] fresh_proc)))
       = [EvRealpath (Some ''./sshpilot'')]"
    using steps_in_order[of fresh_proc no_os stack_junk "[''./sshpilot'']"]
    by (simp add: argv0_def no_os_def)
  have 2: "syscalls (new_events fresh_proc
         (snd (main (test_os bundle_exe False True True) stack_junk [''./sshpilot''] fresh_proc)))
       = [EvRealpath (Some ''./sshpilot''),
          EvStat ''/Applications/SSHPilot.app/Contents/Resources/launcher.sh'']"
    using steps_in_order[of fresh_proc "test_os bundle_exe False True True" stack_junk "[''./sshpilot'']",
        THEN conjunct2, THEN conjunct2, rule_format,
        of "''./sshpilot''" "[]" 64 bundle_exe _ _, OF conjI[OF refl conjI[OF r conjI[OF sp rp]]]]
    by (simp add: test_os_def)
  have 3: "syscalls (new_events fresh_proc
         (snd (main (test_os bundle_exe True False True) stack_junk [''./sshpilot''] fresh_proc)))
       = [EvRealpath (Some ''./sshpilot''),
          EvStat ''/Applications/SSHPilot.app/Contents/Resources/launcher.sh'',
          EvChdir ''/Applications/SSHPilot.app/Contents/Resources'']"
    using steps_in_order[of fresh_proc "test_os bundle_exe True False True" stack_junk "[''./sshpilot'']",
        THEN conjunct2, THEN conjunct2, rule_format,
        of "''./sshpilot''" "[]" 64 bundle_exe _ _, OF conjI[OF refl conjI[OF r conjI[OF sp rp]]]]
    by (simp add: test_os_def)
  from 1 2 3 show ?thesis by (simp add: argv0_def)
qed

lemma msg_not_found_neq:
  "msg_not_found sp \<noteq> msg_resolve" "msg_not_found sp \<noteq> msg_chdir" "msg_not_found sp \<noteq> msg_exec"
  by (simp_all add: msg_not_found_def msg_resolve_def msg_chdir_def msg_exec_def)

text \<open>
  C7 (amended). The validator fails, with the script-not-found diagnostic and status 1,
  exactly when \<^verbatim>\<open>stat\<close> fails on the script path: nothing else about the entry is
  looked at. For a script that exists and that \<^verbatim>\<open>execl\<close> rejects, provided \<^verbatim>\<open>chdir\<close> to
  the resources path succeeds, \<^verbatim>\<open>execl\<close> is called and returns, and the run returns 1
  with the exec diagnostic. When \<^verbatim>\<open>chdir\<close> fails instead, \<^verbatim>\<open>execl\<close> is never called and
  the diagnostic is the one of \<^verbatim>\<open>chdir\<close>.
\<close>
theorem validator_checks_existence_only:
  assumes "os_realpath sys a = Some (p, path)"
    and "script_path fr path = Some sp" and "resources_path fr path = Some rp"
  shows "((fst (main sys fr (a # args) s0) = Exit 1
            \<and> stderr (snd (main sys fr (a # args) s0)) = stderr s0 @ msg_not_found sp)
          \<longleftrightarrow> \<not> os_stat sys sp)
       \<and> (os_stat sys sp \<and> os_chdir sys rp \<and> \<not> os_execl sys sp [sp] \<longrightarrow>
            EvExecl sp [sp] \<in> set (new_events s0 (snd (main sys fr (a # args) s0)))
          \<and> fst (main sys fr (a # args) s0) = Exit 1
          \<and> stderr (snd (main sys fr (a # args) s0)) = stderr s0 @ msg_exec)"
  by (simp add: main_resolved[OF assms] new_events_def msg_not_found_neq msg_not_found_neq[symmetric])

theorem validator_checks_existence_only_witness:
  "os_stat (test_os bundle_exe True True False) ''/Applications/SSHPilot.app/Contents/Resources/launcher.sh''
   \<and> os_chdir (test_os bundle_exe True True False) ''/Applications/SSHPilot.app/Contents/Resources''
   \<and> \<not> os_execl (test_os bundle_exe True True False)
        ''/Applications/SSHPilot.app/Contents/Resources/launcher.sh''
        [''/Applications/SSHPilot.app/Contents/Resources/launcher.sh'']
   \<and> EvExecl ''/Applications/SSHPilot.app/Contents/Resources/launcher.sh''
        [''/Applications/SSHPilot.app/Contents/Resources/launcher.sh'']
       \<in> set (new_events fresh_proc
                (snd (main (test_os bundle_exe True True False) stack_junk [''./sshpilot''] fresh_proc)))
   \<and> fst (main (test_os bundle_exe True True False) stack_junk [''./sshpilot''] fresh_proc) = Exit 1
   \<and> stderr (snd (main (test_os bundle_exe True True False) stack_junk [''./sshpilot''] fresh_proc))
       = msg_exec"
proof -
  have os: "os_stat (test_os bundle_exe True True False) ''/Applications/SSHPilot.app/Contents/Resources/launcher.sh''"
    "os_chdir (test_os bundle_exe True True False) ''/Applications/SSHPilot.app/Contents/Resources''"
    "\<not> os_execl (test_os bundle_exe True True False)
        ''/Applications/SSHPilot.app/Contents/Resources/launcher.sh''
        [''/Applications/SSHPilot.app/Contents/Resources/launcher.sh'']"
    by (simp_all add: test_os_def)
  from validator_checks_existence_only[where ?s0.0 = fresh_proc and args = "[]" and a = "''./sshpilot''"
        and fr = stack_junk,
      OF test_os_realpath bundle_exe_paths(3) bundle_exe_paths(2)] os
  show ?thesis by (simp add: fresh_proc_def)
qed

theorem validator_checks_existence_only_counterexample:
  "os_stat (test_os bundle_exe True False False) ''/Applications/SSHPilot.app/Contents/Resources/launcher.sh''
   \<and> \<not> os_execl (test_os bundle_exe True False False)
        ''/Applications/SSHPilot.app/Contents/Resources/launcher.sh''
        [''/Applications/SSHPilot.app/Contents/Resources/launcher.sh'']
   \<and> new_events fresh_proc
        (snd (main (test_os bundle_exe True False False) stack_junk [''./sshpilot''] fresh_proc))
      = [EvRealpath (Some ''./sshpilot''),
         EvStat ''/Applications/SSHPilot.app/Contents/Resources/launcher.sh'',
         EvChdir ''/Applications/SSHPilot.app/Contents/Resources'',
         EvFree 64]
   \<and> stderr (snd (main (test_os bundle_exe True False False) stack_junk [''./sshpilot''] fresh_proc))
       = msg_chdir
   \<and> stderr (snd (main (test_os bundle_exe True False False) stack_junk [''./sshpilot''] fresh_proc))
       \<noteq> msg_exec"
  by (simp add: main_resolved[OF test_os_realpath bundle_exe_paths(3) bundle_exe_paths(2)]
      new_events_def fresh_proc_def)
     (simp add: test_os_def msg_chdir_def msg_exec_def)

subsection \<open>The path buffer\<close>

text \<open>
  C8. Once \<^verbatim>\<open>realpath\<close> has returned its block, no run frees anything twice, and every
  run that does not end in the replacement of the process image frees exactly that
  block, exactly once, as its last action; the block is then no longer allocated.
\<close>
theorem path_buffer_freed_once:
  assumes "os_realpath sys a = Some (p, path)"
  shows "length (frees (new_events s0 (snd (main sys fr (a # args) s0)))) \<le> 1
       \<and> ((\<forall>img. fst (main sys fr (a # args) s0) \<noteq> Replaced img) \<longrightarrow>
            frees (new_events s0 (snd (main sys fr (a # args) s0))) = [EvFree p]
          \<and> last (trace (snd (main sys fr (a # args) s0))) = EvFree p
          \<and> heap (snd (main sys fr (a # args) s0)) p = None)"
proof -
  from paths_total[of fr path] obtain sp rp where
    "script_path fr path = Some sp" "resources_path fr path = Some rp" by blast
  note m = main_resolved[OF assms this]
  show ?thesis by (simp add: m new_events_def frees_def)
qed

theorem path_buffer_freed_once_witness:
  "(\<forall>img. fst (main (test_os bundle_exe True True False) stack_junk [''./sshpilot''] fresh_proc)
            \<noteq> Replaced img)
   \<and> frees (new_events fresh_proc
        (snd (main (test_os bundle_exe True True False) stack_junk [''./sshpilot''] fresh_proc)))
       = [EvFree 64]
   \<and> last (trace (snd (main (test_os bundle_exe True True False) stack_junk [''./sshpilot''] fresh_proc)))
       = EvFree 64
   \<and> heap (snd (main (test_os bundle_exe True True False) stack_junk [''./sshpilot''] fresh_proc)) 64
       = None"
proof -
  have ne: "\<forall>img. fst (main (test_os bundle_exe True True False) stack_junk [''./sshpilot''] fresh_proc)
            \<noteq> Replaced img"
    by (simp add: main_resolved[OF test_os_realpath bundle_exe_paths(3) bundle_exe_paths(2)])
       (simp add: test_os_def)
  from path_buffer_freed_once[where ?s0.0 = fresh_proc and args = "[]" and a = "''./sshpilot''"
        and fr = stack_junk, OF test_os_realpath[of bundle_exe True True False]] ne
  show ?thesis by blast
qed

subsection \<open>What the diagnostics name\<close>

text \<open>
  C5 (amended). Only the script-not-found diagnostic contains the offending path: it is
  \<^verbatim>\<open>Error: Launcher script not found at \<close> followed by the script path and a newline.
  The diagnostics of a failed \<^verbatim>\<open>realpath\<close>, a failed \<^verbatim>\<open>chdir\<close> and a returning \<^verbatim>\<open>execl\<close>
  are fixed lines that name no path.
\<close>

theorem only_not_found_names_path:
  "((case argv0 argv of None \<Rightarrow> None | Some f \<Rightarrow> os_realpath sys f) = None \<longrightarrow>
        new_output s0 (snd (main sys fr argv s0))
          = ''Error: Could not resolve executable path'' @ [LF])
   \<and> (\<forall>a args p path sp rp.
        argv = a # args \<and> os_realpath sys a = Some (p, path)
        \<and> script_path fr path = Some sp \<and> resources_path fr path = Some rp \<longrightarrow>
          (\<not> os_stat sys sp \<longrightarrow>
             new_output s0 (snd (main sys fr argv s0))
               = ''Error: Launcher script not found at '' @ sp @ [LF]
             \<and> sublist sp (new_output s0 (snd (main sys fr argv s0))))
        \<and> (os_stat sys sp \<and> \<not> os_chdir sys rp \<longrightarrow>
             new_output s0 (snd (main sys fr argv s0))
               = ''Error: Could not change to resources directory'' @ [LF])
        \<and> (os_stat sys sp \<and> os_chdir sys rp \<and> \<not> os_execl sys sp [sp] \<longrightarrow>
             new_output s0 (snd (main sys fr argv s0))
               = ''Error: Failed to execute launcher script'' @ [LF]))"
proof (cases rule: main_cases[where argv=argv and sys=sys and fr=fr])
  case unresolved
  then show ?thesis
    by (auto simp: main_unresolved new_output_def msg_resolve_def argv0_def)
next
  case (resolved a args p path sp rp)
  have sub: "sublist sp (''Error: Launcher script not found at '' @ sp @ [LF])"
    by (rule sublist_appendI)
  show ?thesis
    unfolding resolved(1)
    apply (intro conjI)
    subgoal using resolved(2) by (simp add: argv0_def)
    subgoal using resolved(2-4) sub
      by (auto simp: main_resolved[OF resolved(2-4)] new_output_def
          msg_not_found_def msg_chdir_def msg_exec_def)
    done
qed

theorem only_not_found_names_path_witness:
  "\<not> os_stat (test_os bundle_exe False True True) ''/Applications/SSHPilot.app/Contents/Resources/launcher.sh''
   \<and> new_output fresh_proc
        (snd (main (test_os bundle_exe False True True) stack_junk [''./sshpilot''] fresh_proc))
       = ''Error: Launcher script not found at ''
           @ ''/Applications/SSHPilot.app/Contents/Resources/launcher.sh'' @ [LF]
   \<and> sublist ''/Applications/SSHPilot.app/Contents/Resources/launcher.sh''
        (new_output fresh_proc
          (snd (main (test_os bundle_exe False True True) stack_junk [''./sshpilot''] fresh_proc)))"
proof -
  note sp = bundle_exe_paths(3)[of stack_junk] and rp = bundle_exe_paths(2)[of stack_junk]
  note r = test_os_realpath[of bundle_exe False True True "''./sshpilot''"]
  have st: "\<not> os_stat (test_os bundle_exe False True True) ''/Applications/SSHPilot.app/Contents/Resources/launcher.sh''"
    by (simp add: test_os_def)
  from only_not_found_names_path[where argv = "[''./sshpilot'']"
        and sys = "test_os bundle_exe False True True" and ?s0.0 = fresh_proc and fr = stack_junk,
      THEN conjunct2, rule_format,
      of "''./sshpilot''" "[]" 64 bundle_exe _ _, OF conjI[OF refl conjI[OF r conjI[OF sp rp]]],
      THEN conjunct1, rule_format, OF st] st
  show ?thesis by blast
qed

theorem every_diagnostic_names_path_counterexample:
  "new_output fresh_proc (snd (main no_os stack_junk [''./sshpilot''] fresh_proc))
       = ''Error: Could not resolve executable path'' @ [LF]
   \<and> \<not> sublist ''./sshpilot''
         (new_output fresh_proc (snd (main no_os stack_junk [''./sshpilot''] fresh_proc)))
   \<and> new_output fresh_proc
        (snd (main (test_os bundle_exe True False True) stack_junk [''./sshpilot''] fresh_proc))
       = ''Error: Could not change to resources directory'' @ [LF]
   \<and> \<not> sublist ''/Applications/SSHPilot.app/Contents/Resources''
         (new_output fresh_proc
           (snd (main (test_os bundle_exe True False True) stack_junk [''./sshpilot''] fresh_proc)))
   \<and> new_output fresh_proc
        (snd (main (test_os bundle_exe True True False) stack_junk [''./sshpilot''] fresh_proc))
       = ''Error: Failed to execute launcher script'' @ [LF]
   \<and> \<not> sublist ''/Applications/SSHPilot.app/Contents/Resources/launcher.sh''
         (new_output fresh_proc
           (snd (main (test_os bundle_exe True True False) stack_junk [''./sshpilot''] fresh_proc)))"
proof -
  have 1: "new_output fresh_proc (snd (main no_os stack_junk [''./sshpilot''] fresh_proc))
       = ''Error: Could not resolve executable path'' @ [LF]"
    by (simp add: main_unresolved argv0_def no_os_def new_output_def msg_resolve_def)
  have 2: "new_output fresh_proc
        (snd (main (test_os bundle_exe True False True) stack_junk [''./sshpilot''] fresh_proc))
       = ''Error: Could not change to resources directory'' @ [LF]"
    by (simp add: main_resolved[OF test_os_realpath bundle_exe_paths(3) bundle_exe_paths(2)]
        new_output_def msg_chdir_def)
       (simp add: test_os_def)
  have 3: "new_output fresh_proc
        (snd (main (test_os bundle_exe True True False) stack_junk [''./sshpilot''] fresh_proc))
       = ''Error: Failed to execute launcher script'' @ [LF]"
    by (simp add: main_resolved[OF test_os_realpath bundle_exe_paths(3) bundle_exe_paths(2)]
        new_output_def msg_exec_def)
       (simp add: test_os_def)
  have n1: "strstr (''Error: Could not resolve executable path'' @ [LF]) ''./sshpilot'' = None"
    by (simp add: LF_def)
  have n2: "strstr (''Error: Could not change to resources directory'' @ [LF])
              ''/Applications/SSHPilot.app/Contents/Resources'' = None"
    by (simp add: LF_def)
  have n3: "strstr (''Error: Failed to execute launcher script'' @ [LF])
              ''/Applications/SSHPilot.app/Contents/Resources/launcher.sh'' = None"
    by (simp add: LF_def)
  show ?thesis
    unfolding 1 2 3 using n1 n2 n3 strstr_sublist by blast
qed

end
